theory Spec2Isabelle
  imports Main "HOL-Library.Sublist" "HOL-Library.AList"
begin

section \<open>JSON values and JSON text\<close>

text \<open>
  The server handles parsed JSON values and JSON text. A parsed value is a \<open>json\<close>; an
  object is the list of its members in enumeration order. Numbers are the integers a double
  holds exactly (the safe integers, see \<open>wf_json\<close>); fractions and exponents are outside the
  model. A \<open>string\<close> is the list of the bytes of its UTF-8 encoding, for a JavaScript string
  as for the content of a file, so \<open>length\<close> is \<open>Buffer.byteLength\<close>.
\<close>

datatype json =
    JNull
  | JBool bool
  | JNum int
  | JStr string
  | JArr "json list"
  | JObj "(string \<times> json) list"

definition MAX_SAFE_INTEGER :: int where
  "MAX_SAFE_INTEGER = 2 ^ 53 - 1"


subsection \<open>JSON.stringify\<close>














subsection \<open>JSON.parse\<close>

text \<open>
  The JSON grammar of ECMA-404 restricted to the values of the model: a number literal is an
  integer literal of a safe integer (a fraction, an exponent, \<open>-0\<close> or a larger magnitude is
  not decoded by the model), and a \<open>\u\<close> escape names an ASCII character (the bytes of
  the other characters stand in the text as they are). A text is decoded by recursive
  descent; \<open>None\<close> is the SyntaxError.
\<close>

definition is_ws :: "char \<Rightarrow> bool" where
  "is_ws c = (c = CHR 0x20 \<or> c = CHR 0x09 \<or> c = CHR 0x0A \<or> c = CHR 0x0D)"

definition skip_ws :: "string \<Rightarrow> string" where
  "skip_ws s = dropWhile is_ws s"

definition is_digit :: "char \<Rightarrow> bool" where
  "is_digit c = (c \<in> set ''0123456789'')"

definition digit_val :: "char \<Rightarrow> nat" where
  "digit_val c = of_char c - 48"

definition nat_of_digits :: "string \<Rightarrow> nat" where
  "nat_of_digits ds = foldl (\<lambda>a c. 10 * a + digit_val c) 0 ds"

definition hex_val :: "char \<Rightarrow> nat option" where
  "hex_val c =
     (let n = (of_char c :: nat) in
      if 48 \<le> n \<and> n \<le> 57 then Some (n - 48)
      else if 97 \<le> n \<and> n \<le> 102 then Some (n - 87)
      else if 65 \<le> n \<and> n \<le> 70 then Some (n - 55)
      else None)"

definition hex4 :: "char \<Rightarrow> char \<Rightarrow> char \<Rightarrow> char \<Rightarrow> nat option" where
  "hex4 a b c d =
     (case (hex_val a, hex_val b, hex_val c, hex_val d) of
        (Some w, Some x, Some y, Some z) \<Rightarrow> Some (((w * 16 + x) * 16 + y) * 16 + z)
      | _ \<Rightarrow> None)"

definition unescape :: "char \<Rightarrow> char option" where
  "unescape e =
     (if e = CHR 0x22 then Some (CHR 0x22)
      else if e = CHR 0x5C then Some (CHR 0x5C)
      else if e = CHR ''/'' then Some (CHR ''/'')
      else if e = CHR ''b'' then Some (CHR 0x08)
      else if e = CHR ''f'' then Some (CHR 0x0C)
      else if e = CHR ''n'' then Some (CHR 0x0A)
      else if e = CHR ''r'' then Some (CHR 0x0D)
      else if e = CHR ''t'' then Some (CHR 0x09)
      else None)"

definition cons_char :: "char \<Rightarrow> (string \<times> string) option \<Rightarrow> (string \<times> string) option" where
  "cons_char c r = (case r of None \<Rightarrow> None | Some (s, rest) \<Rightarrow> Some (c # s, rest))"

text \<open>The characters of a string literal after its opening quote, up to the closing one;
  returns the string and the text after it.\<close>

fun parse_chars :: "string \<Rightarrow> (string \<times> string) option" where
  "parse_chars [] = None"
| "parse_chars (c # cs) =
     (if c = CHR 0x22 then Some ([], cs)
      else if c = CHR 0x5C then
        (case cs of
           [] \<Rightarrow> None
         | e # r \<Rightarrow>
             if e = CHR ''u'' then
               (case r of
                  h1 # h2 # h3 # h4 # r' \<Rightarrow>
                    (case hex4 h1 h2 h3 h4 of
                       None \<Rightarrow> None
                     | Some n \<Rightarrow> if n < 128 then cons_char (char_of n) (parse_chars r') else None)
                | _ \<Rightarrow> None)
             else
               (case unescape e of
                  None \<Rightarrow> None
                | Some ch \<Rightarrow> cons_char ch (parse_chars r)))
      else if (of_char c :: nat) < 32 then None
      else cons_char c (parse_chars cs))"

definition parse_number :: "string \<Rightarrow> (json \<times> string) option" where
  "parse_number s =
     (let neg = (s \<noteq> [] \<and> hd s = CHR ''-'');
          s1 = (if neg then tl s else s);
          ds = takeWhile is_digit s1;
          r = dropWhile is_digit s1;
          n = nat_of_digits ds
      in if ds = [] then None
         else if 1 < length ds \<and> hd ds = CHR ''0'' then None
         else if r \<noteq> [] \<and> hd r \<in> set ''.eE'' then None
         else if MAX_SAFE_INTEGER < int n then None
         else if neg \<and> n = 0 then None
         else Some (JNum (if neg then - int n else int n), r))"

definition parse_literal :: "string \<Rightarrow> json \<Rightarrow> string \<Rightarrow> (json \<times> string) option" where
  "parse_literal word v s =
     (if take (length word) s = word then Some (v, drop (length word) s) else None)"

text \<open>An object keeps one member per name: a repeated name overwrites the value of the
  member already there.\<close>

definition object_of :: "(string \<times> json) list \<Rightarrow> (string \<times> json) list" where
  "object_of ms = foldl (\<lambda>acc kv. AList.update (fst kv) (snd kv) acc) [] ms"

text \<open>
  The descent carries fuel: one unit for each value and each element or member entered.
  \<open>parse_elems\<close> reads the elements of a non-empty array after \<open>[\<close>, up to and including
  \<open>]\<close>; \<open>parse_members\<close> the members of a non-empty object after \<open>{\<close>, up to and including
  \<open>}\<close>.
\<close>

fun parse_value :: "nat \<Rightarrow> string \<Rightarrow> (json \<times> string) option"
  and parse_elems :: "nat \<Rightarrow> string \<Rightarrow> (json list \<times> string) option"
  and parse_members :: "nat \<Rightarrow> string \<Rightarrow> ((string \<times> json) list \<times> string) option"
where
  "parse_value 0 s = None"
| "parse_value (Suc n) s =
     (case s of
        [] \<Rightarrow> None
      | c # cs \<Rightarrow>
          if c = CHR 0x22 then
            (case parse_chars cs of None \<Rightarrow> None | Some (str, r) \<Rightarrow> Some (JStr str, r))
          else if c = CHR ''['' then
            (case skip_ws cs of
               [] \<Rightarrow> None
             | d # ds \<Rightarrow>
                 if d = CHR '']'' then Some (JArr [], ds)
                 else (case parse_elems n (d # ds) of
                         None \<Rightarrow> None
                       | Some (vs, r) \<Rightarrow> Some (JArr vs, r)))
          else if c = CHR ''{'' then
            (case skip_ws cs of
               [] \<Rightarrow> None
             | d # ds \<Rightarrow>
                 if d = CHR ''}'' then Some (JObj [], ds)
                 else (case parse_members n (d # ds) of
                         None \<Rightarrow> None
                       | Some (ms, r) \<Rightarrow> Some (JObj (object_of ms), r)))
          else if c = CHR ''t'' then parse_literal ''true'' (JBool True) s
          else if c = CHR ''f'' then parse_literal ''false'' (JBool False) s
          else if c = CHR ''n'' then parse_literal ''null'' JNull s
          else parse_number s)"
| "parse_elems 0 s = None"
| "parse_elems (Suc n) s =
     (case parse_value n s of
        None \<Rightarrow> None
      | Some (v, r) \<Rightarrow>
          (case skip_ws r of
             [] \<Rightarrow> None
           | d # ds \<Rightarrow>
               if d = CHR '','' then
                 (case parse_elems n (skip_ws ds) of
                    None \<Rightarrow> None
                  | Some (vs, r') \<Rightarrow> Some (v # vs, r'))
               else if d = CHR '']'' then Some ([v], ds)
               else None))"
| "parse_members 0 s = None"
| "parse_members (Suc n) s =
     (case s of
        [] \<Rightarrow> None
      | q # cs \<Rightarrow>
          if q \<noteq> CHR 0x22 then None
          else
            (case parse_chars cs of
               None \<Rightarrow> None
             | Some (k, r) \<Rightarrow>
                 (case skip_ws r of
                    [] \<Rightarrow> None
                  | c # r1 \<Rightarrow>
                      if c \<noteq> CHR '':'' then None
                      else
                        (case parse_value n (skip_ws r1) of
                           None \<Rightarrow> None
                         | Some (v, r2) \<Rightarrow>
                             (case skip_ws r2 of
                                [] \<Rightarrow> None
                              | d # ds \<Rightarrow>
                                  if d = CHR '','' then
                                    (case parse_members n (skip_ws ds) of
                                       None \<Rightarrow> None
                                     | Some (ms, r3) \<Rightarrow> Some ((k, v) # ms, r3))
                                  else if d = CHR ''}'' then Some ([(k, v)], ds)
                                  else None)))))"

text \<open>\<open>JSON.parse(text)\<close>: one value between optional white space. The length of the text
  is fuel enough: whatever some amount of fuel decodes, this amount decodes
  (\<open>JSON_parse_any_fuel\<close> below).\<close>

definition JSON_parse :: "string \<Rightarrow> json option" where
  "JSON_parse s =
     (case parse_value (Suc (length s)) (skip_ws s) of
        None \<Rightarrow> None
      | Some (v, r) \<Rightarrow> if skip_ws r = [] then Some v else None)"

section \<open>Validation: the zod schemas\<close>

text \<open>
  The schemas are built with the combinators of the zod library (version 3). A schema reads
  an input that is a JSON value or \<open>undefined\<close> (a member that is not there, \<open>None\<close>) at a
  path, and returns the parsed value or the issues it found. Every member of an object and
  every element of an array is parsed, also after a failure, and the issues are collected
  in that order. An issue is kept with its code and its path; the message text is not
  modelled.
\<close>

datatype path_elem = Key string | Idx nat

datatype zod_type =
  T_undefined | T_null | T_boolean | T_number | T_string | T_array | T_object

datatype issue =
    Invalid_type "path_elem list" zod_type
  | Invalid_literal "path_elem list"
  | Invalid_enum_value "path_elem list"
  | Invalid_union "path_elem list" "issue list list"

type_synonym parse_return = "issue list + json option"

type_synonym schema = "path_elem list \<Rightarrow> json option \<Rightarrow> parse_return"

fun getParsedType :: "json option \<Rightarrow> zod_type" where
  "getParsedType None = T_undefined"
| "getParsedType (Some JNull) = T_null"
| "getParsedType (Some (JBool b)) = T_boolean"
| "getParsedType (Some (JNum n)) = T_number"
| "getParsedType (Some (JStr s)) = T_string"
| "getParsedType (Some (JArr xs)) = T_array"
| "getParsedType (Some (JObj kvs)) = T_object"

fun isValid :: "parse_return \<Rightarrow> bool" where
  "isValid (Inr v) = True"
| "isValid (Inl is) = False"

fun issues_of :: "parse_return \<Rightarrow> issue list" where
  "issues_of (Inl is) = is"
| "issues_of (Inr v) = []"

definition z_literal :: "string \<Rightarrow> schema" where
  "z_literal lit p inp = (if inp = Some (JStr lit) then Inr inp else Inl [Invalid_literal p])"

definition z_enum :: "string list \<Rightarrow> schema" where
  "z_enum vals p inp =
     (case inp of
        Some (JStr s) \<Rightarrow> if s \<in> set vals then Inr inp else Inl [Invalid_enum_value p]
      | _ \<Rightarrow> Inl [Invalid_type p (getParsedType inp)])"

definition z_any :: schema where
  "z_any p inp = Inr inp"

definition z_optional :: "schema \<Rightarrow> schema" where
  "z_optional s p inp = (if inp = None then Inr None else s p inp)"

text \<open>
  \<open>mergeObjectSync\<close>: invalid as soon as one member is; otherwise the object of the members
  whose value is defined, in the order parsed. A member named \<open>__proto__\<close> never becomes a
  member of the result.
\<close>

fun member_of :: "string \<times> parse_return \<Rightarrow> (string \<times> json) list" where
  "member_of (k, Inr (Some v)) = (if k = ''__proto__'' then [] else [(k, v)])"
| "member_of (k, _) = []"

definition mergeObject :: "(string \<times> parse_return) list \<Rightarrow> parse_return" where
  "mergeObject pairs =
     (if list_all (\<lambda>kr. isValid (snd kr)) pairs
      then Inr (Some (JObj (concat (map member_of pairs))))
      else Inl (concat (map (\<lambda>kr. issues_of (snd kr)) pairs)))"

text \<open>\<open>z.object(shape)\<close> with the default policy for unknown keys, strip: only the keys of
  the shape are read, in the order of the shape.\<close>

definition z_object :: "(string \<times> schema) list \<Rightarrow> schema" where
  "z_object shape p inp =
     (case inp of
        Some (JObj kvs) \<Rightarrow>
          mergeObject (map (\<lambda>ks. (fst ks, (snd ks) (p @ [Key (fst ks)]) (map_of kvs (fst ks)))) shape)
      | _ \<Rightarrow> Inl [Invalid_type p (getParsedType inp)])"

text \<open>\<open>z.record(valueType)\<close>: every member of the input object, its value parsed by the
  value type.\<close>

definition z_record :: "schema \<Rightarrow> schema" where
  "z_record s p inp =
     (case inp of
        Some (JObj kvs) \<Rightarrow>
          mergeObject (map (\<lambda>kv. (fst kv, s (p @ [Key (fst kv)]) (Some (snd kv)))) kvs)
      | _ \<Rightarrow> Inl [Invalid_type p (getParsedType inp)])"

text \<open>\<open>mergeArray\<close>; an element parsed to \<open>undefined\<close> is serialised as \<open>null\<close>.\<close>

fun element_of :: "parse_return \<Rightarrow> json" where
  "element_of (Inr (Some v)) = v"
| "element_of _ = JNull"

definition mergeArray :: "parse_return list \<Rightarrow> parse_return" where
  "mergeArray rs =
     (if list_all isValid rs then Inr (Some (JArr (map element_of rs)))
      else Inl (concat (map issues_of rs)))"

definition z_array :: "schema \<Rightarrow> schema" where
  "z_array s p inp =
     (case inp of
        Some (JArr xs) \<Rightarrow>
          mergeArray (map (\<lambda>ix. s (p @ [Idx (fst ix)]) (Some (snd ix))) (enumerate 0 xs))
      | _ \<Rightarrow> Inl [Invalid_type p (getParsedType inp)])"

text \<open>\<open>z.union(options)\<close>: the result of the first option that is valid; when none is, one
  issue holding the issues of every option.\<close>

definition z_union :: "schema list \<Rightarrow> schema" where
  "z_union options p inp =
     (let results = map (\<lambda>s. s p inp) options in
      case find isValid results of
        Some r \<Rightarrow> r
      | None \<Rightarrow> Inl [Invalid_union p (filter (\<lambda>is. is \<noteq> []) (map issues_of results))])"

subsection \<open>The GeoJSON schemas of the server\<close>

text \<open>The four schemas as the server declares them (lines 55 to 79).\<close>

definition geometry_kinds :: "string list" where
  "geometry_kinds =
     [''Point'', ''LineString'', ''Polygon'', ''MultiPoint'', ''MultiLineString'',
      ''MultiPolygon'', ''GeometryCollection'']"

definition geometry :: schema where
  "geometry = z_object [(''type'', z_enum geometry_kinds), (''coordinates'', z_any)]"

definition feature :: schema where
  "feature =
     z_object
       [(''type'', z_literal ''Feature''),
        (''geometry'', geometry),
        (''properties'', z_optional (z_record z_any))]"

definition featureCollection :: schema where
  "featureCollection =
     z_object [(''type'', z_literal ''FeatureCollection''), (''features'', z_array feature)]"

definition geojsonSchema :: schema where
  "geojsonSchema = z_union [featureCollection, feature]"

text \<open>\<open>geojsonSchema.parse(data)\<close>: the value, or \<open>Inl\<close> the issues of the ZodError thrown.\<close>

definition geojsonSchema_parse :: "json \<Rightarrow> parse_return" where
  "geojsonSchema_parse data = geojsonSchema [] (Some data)"

section \<open>Storage\<close>

text \<open>
  An absolute, normalised path is the list of its segments from the root. \<open>path_join\<close> is
  \<open>path.join\<close> of Node (POSIX) for an absolute first argument: the second argument is split
  at \<open>/\<close>, then empty and \<open>.\<close> segments are dropped and \<open>..\<close> removes the segment before it
  (nothing at the root). \<open>dirname\<close> is the directory of the server module; \<open>DATA_DIR\<close> and
  \<open>UPLOAD_DIR\<close> are lines 30 and 31.
\<close>

type_synonym path = "string list"

fun split_slash :: "string \<Rightarrow> string list" where
  "split_slash [] = [[]]"
| "split_slash (c # cs) =
     (if c = CHR ''/'' then [] # split_slash cs
      else (case split_slash cs of [] \<Rightarrow> [[c]] | s # ss \<Rightarrow> (c # s) # ss))"

definition resolve_segment :: "path \<Rightarrow> string \<Rightarrow> path" where
  "resolve_segment stack seg =
     (if seg = [] \<or> seg = ''.'' then stack
      else if seg = ''..'' then butlast stack
      else stack @ [seg])"

definition normalizeString :: "string list \<Rightarrow> path" where
  "normalizeString segs = foldl resolve_segment [] segs"

definition path_join :: "path \<Rightarrow> string \<Rightarrow> path" where
  "path_join base rel = normalizeString (base @ split_slash rel)"

definition DATA_DIR :: "path \<Rightarrow> path" where
  "DATA_DIR dirname = path_join dirname ''data''"

definition UPLOAD_DIR :: "path \<Rightarrow> path" where
  "UPLOAD_DIR dirname = path_join (DATA_DIR dirname) ''uploads''"

text \<open>A path lies inside the storage root when it is a proper extension of the root.\<close>

definition inside_root :: "path \<Rightarrow> path \<Rightarrow> bool" where
  "inside_root root p = strict_prefix root p"

text \<open>
  The file system maps a path to the file there: its bytes and its modification time (as
  \<open>toUTCString\<close> prints it). \<open>fs.promises.writeFile\<close> opens the file for writing, which creates
  or truncates it, writes the data and closes it. What the platform does with one call is an
  input of the model: the write completes, the open fails (nothing changes), or the write
  fails after some bytes (the file holds those bytes).
\<close>

record stored_file =
  content :: string
  mtime :: string

type_synonym filesystem = "path \<rightharpoonup> stored_file"




section \<open>The HTTP handlers\<close>

text \<open>
  A response is its status, the headers the handler sets itself, and its body: a JSON value
  (\<open>res.json\<close>), the error object with the list of issues as \<open>details\<close>, or the bytes piped
  from a file. The log lines are not modelled.
\<close>

datatype body = Json json | Json_details string "issue list" | Bytes string

record response =
  status :: nat
  headers :: "(string \<times> string) list"
  body :: body

definition error_response :: "nat \<Rightarrow> string \<Rightarrow> response" where
  "error_response code msg = \<lparr>status = code, headers = [], body = Json (JObj [(''error'', JStr msg)])\<rparr>"

definition filePath_of :: "path \<Rightarrow> string \<Rightarrow> path" where
  "filePath_of dirname ident = path_join (UPLOAD_DIR dirname) (ident @ ''.geojson'')"

text \<open>\<open>GET /api/geojson/:id\<close> (lines 85 to 99): \<open>stat\<close> throws when there is no file at the
  path. The identifier is the route parameter after percent-decoding, so it may hold any
  character, \<open>/\<close> included.\<close>

definition get_handler :: "path \<Rightarrow> filesystem \<Rightarrow> string \<Rightarrow> response" where
  "get_handler dirname fs ident =
     (let filePath = filePath_of dirname ident in
      case fs filePath of
        Some stat \<Rightarrow>
          \<lparr>status = 200,
           headers = [(''Content-Type'', ''application/geo+json''),
                      (''Cache-Control'', ''public, max-age=300''),
                      (''Last-Modified'', mtime stat)],
           body = Bytes (content stat)\<rparr>
      | None \<Rightarrow> error_response 404 ''Not found'')"







section \<open>Vocabulary of the properties\<close>



section \<open>Properties\<close>

text \<open>
  What each schema computes, read off the combinators.
\<close>

lemma geometry_eq:
  "geometry p inp =
     (case inp of
        Some (JObj g) \<Rightarrow>
          (case map_of g ''type'' of
             Some (JStr t) \<Rightarrow>
               if t \<in> set geometry_kinds
               then Inr (Some (JObj ((''type'', JStr t) #
                      (case map_of g ''coordinates'' of None \<Rightarrow> [] | Some c \<Rightarrow> [(''coordinates'', c)]))))
               else Inl [Invalid_enum_value (p @ [Key ''type''])]
           | other \<Rightarrow> Inl [Invalid_type (p @ [Key ''type'']) (getParsedType other)])
      | _ \<Rightarrow> Inl [Invalid_type p (getParsedType inp)])"
  by (simp add: geometry_def z_object_def z_enum_def z_any_def mergeObject_def
      split: option.splits json.splits)

lemma geometry_valid_iff:
  "isValid (geometry p inp) \<longleftrightarrow>
     (\<exists>g t. inp = Some (JObj g) \<and> map_of g ''type'' = Some (JStr t) \<and> t \<in> set geometry_kinds)"
  by (simp add: geometry_eq split: option.splits json.splits)

lemma record_any_members:
  "concat (map (member_of \<circ> (\<lambda>kv. (fst kv, Inr (Some (snd kv))))) ps)
     = filter (\<lambda>kv. fst kv \<noteq> ''__proto__'') ps"
proof (induction ps)
  case Nil
  show ?case by simp
next
  case (Cons kv ps)
  obtain k v where kv: "kv = (k, v)" by (cases kv)
  show ?case using Cons by (simp add: kv)
qed

lemma record_any_eq:
  "z_record z_any p (Some (JObj ps)) = Inr (Some (JObj (filter (\<lambda>kv. fst kv \<noteq> ''__proto__'') ps)))"
  by (simp add: z_record_def z_any_def mergeObject_def record_any_members list_all_iff)

lemma properties_eq:
  "z_optional (z_record z_any) p inp =
     (case inp of
        None \<Rightarrow> Inr None
      | Some (JObj ps) \<Rightarrow> Inr (Some (JObj (filter (\<lambda>kv. fst kv \<noteq> ''__proto__'') ps)))
      | other \<Rightarrow> Inl [Invalid_type p (getParsedType other)])"
  by (simp add: z_optional_def record_any_eq split: option.splits json.splits)
     (simp_all add: z_record_def)

lemma feature_valid_iff:
  "isValid (feature p inp) \<longleftrightarrow>
     (\<exists>m g t. inp = Some (JObj m) \<and> map_of m ''type'' = Some (JStr ''Feature'')
        \<and> map_of m ''geometry'' = Some (JObj g) \<and> map_of g ''type'' = Some (JStr t)
        \<and> t \<in> set geometry_kinds
        \<and> (map_of m ''properties'' = None \<or> (\<exists>ps. map_of m ''properties'' = Some (JObj ps))))"
  apply (cases inp)
   apply (simp add: feature_def z_object_def)
  subgoal for v
    apply (cases v)
         apply (simp_all add: feature_def z_object_def)
    apply (auto simp add: mergeObject_def z_literal_def properties_eq geometry_eq
        split: option.splits json.splits)
    done
  done

lemma feature_value:
  assumes "map_of m ''type'' = Some (JStr ''Feature'')"
    and "map_of m ''geometry'' = Some (JObj g)"
    and "map_of g ''type'' = Some (JStr t)" and "t \<in> set geometry_kinds"
    and "map_of m ''properties'' = None \<or> (\<exists>ps. map_of m ''properties'' = Some (JObj ps))"
  shows "feature p (Some (JObj m)) =
     Inr (Some (JObj ((''type'', JStr ''Feature'')
        # (''geometry'', JObj ((''type'', JStr t)
             # (case map_of g ''coordinates'' of None \<Rightarrow> [] | Some c \<Rightarrow> [(''coordinates'', c)])))
        # (case map_of m ''properties'' of
             Some (JObj ps) \<Rightarrow> [(''properties'', JObj (filter (\<lambda>kv. fst kv \<noteq> ''__proto__'') ps))]
           | _ \<Rightarrow> []))))"
  using assms
  by (auto simp add: feature_def z_object_def mergeObject_def z_literal_def properties_eq
      geometry_eq split: option.splits json.splits)


lemma feature_valid_path: "isValid (feature p inp) = isValid (feature q inp)"
  by (simp add: feature_valid_iff)



lemma collection_valid_type:
  assumes "isValid (featureCollection p inp)"
  shows "\<exists>m. inp = Some (JObj m) \<and> map_of m ''type'' = Some (JStr ''FeatureCollection'')"
  using assms
  by (auto simp add: featureCollection_def z_object_def mergeObject_def z_literal_def
      split: option.splits json.splits if_splits)

lemma union_eq:
  "geojsonSchema p inp =
     (if isValid (featureCollection p inp) then featureCollection p inp
      else if isValid (feature p inp) then feature p inp
      else Inl [Invalid_union p
             (filter (\<lambda>is. is \<noteq> []) [issues_of (featureCollection p inp), issues_of (feature p inp)])])"
  by (simp add: geojsonSchema_def z_union_def)





text \<open>
  Claim C6. An object of type \<open>Feature\<close> passes validation exactly when its \<open>geometry\<close>
  member is an object whose \<open>type\<close> is one of the seven geometry kinds and its
  \<open>properties\<close> member is absent or an object. The condition does not mention
  \<open>coordinates\<close>: whatever that member is, it has no part in the verdict.
\<close>

theorem feature_geometry_kind_required:
  assumes "map_of m ''type'' = Some (JStr ''Feature'')"
  shows "isValid (geojsonSchema_parse (JObj m)) \<longleftrightarrow>
     (\<exists>g t. map_of m ''geometry'' = Some (JObj g) \<and> map_of g ''type'' = Some (JStr t)
        \<and> t \<in> set geometry_kinds)
     \<and> (map_of m ''properties'' = None \<or> (\<exists>ps. map_of m ''properties'' = Some (JObj ps)))"
proof -
  have "\<not> isValid (featureCollection [] (Some (JObj m)))"
    using collection_valid_type [of "[]" "Some (JObj m)"] assms by auto
  then have "isValid (geojsonSchema_parse (JObj m)) = isValid (feature [] (Some (JObj m)))"
    by (simp add: geojsonSchema_parse_def union_eq)
  with assms show ?thesis by (auto simp add: feature_valid_iff)
qed

text \<open>
  Claim C9. A geometry object with one of the seven kinds as \<open>type\<close> and no
  \<open>coordinates\<close> member passes the geometry schema, and a Feature (its \<open>properties\<close>
  absent or an object) with such a geometry is accepted; the validated geometry has the
  \<open>type\<close> member only.
\<close>

theorem geometry_without_coordinates_accepted:
  assumes "map_of m ''type'' = Some (JStr ''Feature'')"
    and "map_of m ''geometry'' = Some (JObj g)"
    and "map_of g ''type'' = Some (JStr t)" and "t \<in> set geometry_kinds"
    and "map_of g ''coordinates'' = None"
    and "map_of m ''properties'' = None \<or> (\<exists>ps. map_of m ''properties'' = Some (JObj ps))"
  shows "geometry p (Some (JObj g)) = Inr (Some (JObj [(''type'', JStr t)]))
     \<and> (\<exists>out. geojsonSchema_parse (JObj m) = Inr (Some (JObj out))
           \<and> map_of out ''geometry'' = Some (JObj [(''type'', JStr t)]))"
proof -
  have g: "geometry p (Some (JObj g)) = Inr (Some (JObj [(''type'', JStr t)]))"
    using assms(3-5) by (simp add: geometry_eq)
  have nc: "\<not> isValid (featureCollection [] (Some (JObj m)))"
    using collection_valid_type [of "[]" "Some (JObj m)"] assms(1) by auto
  have v: "isValid (feature [] (Some (JObj m)))"
    unfolding feature_valid_iff using assms by blast
  from nc v have "geojsonSchema_parse (JObj m) = feature [] (Some (JObj m))"
    by (simp add: geojsonSchema_parse_def union_eq)
  with feature_value [OF assms(1-4) assms(6), of "[]"] assms(5) g show ?thesis by simp
qed




text \<open>
  A Feature whose geometry has the type \<open>Triangle\<close> fails validation.
\<close>

theorem feature_geometry_kind_required_witness:
  "map_of [(''type'', JStr ''Feature''),
           (''geometry'', JObj [(''type'', JStr ''Triangle''), (''coordinates'', JArr [])])] ''type''
     = Some (JStr ''Feature'')
   \<and> \<not> isValid (geojsonSchema_parse
        (JObj [(''type'', JStr ''Feature''),
               (''geometry'', JObj [(''type'', JStr ''Triangle''), (''coordinates'', JArr [])])]))"
proof -
  let ?m = "[(''type'', JStr ''Feature''),
             (''geometry'', JObj [(''type'', JStr ''Triangle''), (''coordinates'', JArr [])])]"
  have h: "map_of ?m ''type'' = Some (JStr ''Feature'')" by simp
  from feature_geometry_kind_required [OF h] h show ?thesis
    by (simp add: geometry_kinds_def)
qed

text \<open>
  The Feature \<open>{type: "Feature", geometry: {type: "Point"}}\<close> is accepted.
\<close>

theorem geometry_without_coordinates_accepted_witness:
  "geometry [Key ''geometry''] (Some (JObj [(''type'', JStr ''Point'')])) =
     Inr (Some (JObj [(''type'', JStr ''Point'')]))
   \<and> (\<exists>out. geojsonSchema_parse
         (JObj [(''type'', JStr ''Feature''), (''geometry'', JObj [(''type'', JStr ''Point'')])]) =
         Inr (Some (JObj out))
       \<and> map_of out ''geometry'' = Some (JObj [(''type'', JStr ''Point'')]))"
proof -
  let ?g = "[(''type'', JStr ''Point'')]"
  let ?m = "[(''type'', JStr ''Feature''), (''geometry'', JObj ?g)]"
  have h1: "map_of ?m ''type'' = Some (JStr ''Feature'')" by simp
  have h2: "map_of ?m ''geometry'' = Some (JObj ?g)" by simp
  have h3: "map_of ?g ''type'' = Some (JStr ''Point'')" by simp
  have h4: "''Point'' \<in> set geometry_kinds" by (simp add: geometry_kinds_def)
  have h5: "map_of ?g ''coordinates'' = None" by simp
  have h6: "map_of ?m ''properties'' = None \<or> (\<exists>ps. map_of ?m ''properties'' = Some (JObj ps))"
    by simp
  from geometry_without_coordinates_accepted [OF h1 h2 h3 h4 h5 h6] show ?thesis .
qed



text \<open>
  Paths: segments that are neither empty, \<open>.\<close> nor \<open>..\<close> are kept as they are.
\<close>

lemma split_slash_plain: "CHR ''/'' \<notin> set s \<Longrightarrow> split_slash s = [s]"
  by (induction s) auto

lemma resolve_keeps_plain:
  assumes "\<forall>s\<in>set acc. s \<noteq> [] \<and> s \<noteq> ''.'' \<and> s \<noteq> ''..''"
  shows "\<forall>s\<in>set (foldl resolve_segment acc xs). s \<noteq> [] \<and> s \<noteq> ''.'' \<and> s \<noteq> ''..''"
  using assms
proof (induction xs arbitrary: acc)
  case Nil
  then show ?case by simp
next
  case (Cons x xs)
  have "\<forall>s\<in>set (resolve_segment acc x). s \<noteq> [] \<and> s \<noteq> ''.'' \<and> s \<noteq> ''..''"
    using Cons.prems by (auto simp add: resolve_segment_def dest: in_set_butlastD)
  from Cons.IH [OF this] show ?case by simp
qed

lemma resolve_plain_segments:
  assumes "\<forall>s\<in>set xs. s \<noteq> [] \<and> s \<noteq> ''.'' \<and> s \<noteq> ''..''"
  shows "foldl resolve_segment acc xs = acc @ xs"
  using assms by (induction xs arbitrary: acc) (auto simp add: resolve_segment_def)

lemma normalizeString_plain:
  "\<forall>s\<in>set (normalizeString xs). s \<noteq> [] \<and> s \<noteq> ''.'' \<and> s \<noteq> ''..''"
  unfolding normalizeString_def by (rule resolve_keeps_plain) simp

lemma path_join_plain:
  assumes "\<forall>s\<in>set base. s \<noteq> [] \<and> s \<noteq> ''.'' \<and> s \<noteq> ''..''"
    and "CHR ''/'' \<notin> set rel" and "rel \<noteq> []" and "rel \<noteq> ''.''" and "rel \<noteq> ''..''"
  shows "path_join base rel = base @ [rel]"
proof -
  have "\<forall>s\<in>set (base @ [rel]). s \<noteq> [] \<and> s \<noteq> ''.'' \<and> s \<noteq> ''..''"
    using assms by auto
  from resolve_plain_segments [OF this, of "[]"] assms(2) show ?thesis
    by (simp add: path_join_def normalizeString_def split_slash_plain)
qed

lemma UPLOAD_DIR_plain:
  "\<forall>s\<in>set (UPLOAD_DIR dirname). s \<noteq> [] \<and> s \<noteq> ''.'' \<and> s \<noteq> ''..''"
  unfolding UPLOAD_DIR_def path_join_def by (rule normalizeString_plain)

text \<open>
  Claim C1, as amended. The retrieval handler joins the storage root with the identifier
  followed by \<open>.geojson\<close>, without any check of the identifier, and looks that path up.
  When the identifier has no \<open>/\<close>, the path is the file of this name directly in the
  storage root, so it lies inside the root, and the answer is decided by that file alone.
\<close>

theorem identifier_without_separator_stays_in_root:
  assumes "CHR ''/'' \<notin> set ident"
  shows "filePath_of dirname ident = UPLOAD_DIR dirname @ [ident @ ''.geojson'']
     \<and> inside_root (UPLOAD_DIR dirname) (filePath_of dirname ident)
     \<and> get_handler dirname fs ident =
         (case fs (UPLOAD_DIR dirname @ [ident @ ''.geojson'']) of
            None \<Rightarrow> error_response 404 ''Not found''
          | Some stat \<Rightarrow>
              \<lparr>status = 200,
               headers = [(''Content-Type'', ''application/geo+json''),
                          (''Cache-Control'', ''public, max-age=300''),
                          (''Last-Modified'', mtime stat)],
               body = Bytes (content stat)\<rparr>)"
proof -
  have 1: "CHR ''/'' \<notin> set (ident @ ''.geojson'')" using assms by simp
  have 2: "ident @ ''.geojson'' \<noteq> []" by simp
  have 3: "ident @ ''.geojson'' \<noteq> ''.''" by (auto dest: arg_cong [where f = length])
  have 4: "ident @ ''.geojson'' \<noteq> ''..''" by (auto dest: arg_cong [where f = length])
  from path_join_plain [OF UPLOAD_DIR_plain [of dirname] 1 2 3 4]
  have p: "filePath_of dirname ident = UPLOAD_DIR dirname @ [ident @ ''.geojson'']"
    by (simp add: filePath_of_def)
  then show ?thesis
    by (simp add: inside_root_def strict_prefix_def get_handler_def split: option.splits)
qed

text \<open>
  An identifier of hexadecimal digits.
\<close>

theorem identifier_without_separator_stays_in_root_witness:
  "CHR ''/'' \<notin> set ''0b5f8f1c''
   \<and> filePath_of [''srv'', ''app''] ''0b5f8f1c'' = [''srv'', ''app'', ''data'', ''uploads'', ''0b5f8f1c.geojson'']
   \<and> inside_root (UPLOAD_DIR [''srv'', ''app'']) (filePath_of [''srv'', ''app''] ''0b5f8f1c'')
   \<and> get_handler [''srv'', ''app''] Map.empty ''0b5f8f1c'' = error_response 404 ''Not found''"
proof -
  have h: "CHR ''/'' \<notin> set ''0b5f8f1c''" by simp
  have u: "UPLOAD_DIR [''srv'', ''app''] = [''srv'', ''app'', ''data'', ''uploads'']"
    by (simp add: UPLOAD_DIR_def DATA_DIR_def path_join_def normalizeString_def resolve_segment_def)
  from identifier_without_separator_stays_in_root [OF h, of "[''srv'', ''app'']" Map.empty] h u
  show ?thesis by auto
qed

text \<open>
  Claim C1 as stated fails: the identifier \<open>../../secret\<close> (sent with its separators
  percent-encoded) makes the path \<open>secret.geojson\<close> in the directory of the server, outside
  the storage root, and the file there is served.
\<close>

theorem identifier_traversal_leaves_root:
  "filePath_of [''srv'', ''app''] ''../../secret'' = [''srv'', ''app'', ''secret.geojson'']
   \<and> \<not> inside_root (UPLOAD_DIR [''srv'', ''app'']) (filePath_of [''srv'', ''app''] ''../../secret'')
   \<and> get_handler [''srv'', ''app'']
        [[''srv'', ''app'', ''secret.geojson''] \<mapsto> \<lparr>content = ''{}'', mtime = ''t''\<rparr>]
        ''../../secret'' =
       \<lparr>status = 200,
        headers = [(''Content-Type'', ''application/geo+json''),
                   (''Cache-Control'', ''public, max-age=300''),
                   (''Last-Modified'', ''t'')],
        body = Bytes ''{}''\<rparr>"
proof -
  have u: "UPLOAD_DIR [''srv'', ''app''] = [''srv'', ''app'', ''data'', ''uploads'']"
    by (simp add: UPLOAD_DIR_def DATA_DIR_def path_join_def normalizeString_def resolve_segment_def)
  have p: "filePath_of [''srv'', ''app''] ''../../secret'' = [''srv'', ''app'', ''secret.geojson'']"
    by (simp add: filePath_of_def u path_join_def normalizeString_def resolve_segment_def)
  show ?thesis by (simp add: p u inside_root_def strict_prefix_def get_handler_def)
qed


























































text \<open>
  The descent consumes text, so the fuel \<open>JSON_parse\<close> gives is never what makes it fail.
\<close>

lemma skip_ws_length: "length (skip_ws s) \<le> length s"
  by (simp add: skip_ws_def length_dropWhile_le)

lemma cons_char_Some:
  "cons_char c x = Some (s, r) \<longleftrightarrow> (\<exists>s'. x = Some (s', r) \<and> s = c # s')"
  by (auto simp add: cons_char_def split: option.splits)

lemma parse_chars_length: "parse_chars cs = Some (s, r) \<Longrightarrow> length r < length cs"
proof (induction cs arbitrary: s r rule: length_induct)
  case (1 cs)
  have ih: "length r < length t" if "parse_chars t = Some (s, r)" "length t < length cs" for t s r
    using 1(1) that by blast
  from 1(2) show ?case
    by (cases cs)
       (auto simp add: cons_char_Some split: if_splits list.splits option.splits
          dest!: ih)
qed

lemma parse_number_length: "parse_number s = Some (v, r) \<Longrightarrow> length r < length s"
proof -
  assume a: "parse_number s = Some (v, r)"
  define s1 where "s1 = (if s \<noteq> [] \<and> hd s = CHR ''-'' then tl s else s)"
  from a have r: "r = dropWhile is_digit s1" and ne: "0 < length (takeWhile is_digit s1)"
    by (auto simp add: parse_number_def Let_def s1_def split: if_splits)
  have "length (takeWhile is_digit s1 @ dropWhile is_digit s1) = length s1"
    by simp
  then have "length (takeWhile is_digit s1) + length (dropWhile is_digit s1) = length s1"
    by (simp only: length_append)
  moreover from ne obtain d ds where "takeWhile is_digit s1 = d # ds"
    by (cases "takeWhile is_digit s1") auto
  ultimately have "length r < length s1" by (simp add: r)
  moreover have "length s1 \<le> length s" by (simp add: s1_def)
  ultimately show ?thesis by simp
qed

lemma parse_literal_length:
  assumes "word \<noteq> []" and "parse_literal word w s = Some (v, r)"
  shows "length r < length s"
proof -
  from assms(2) have t: "take (length word) s = word" and r: "r = drop (length word) s"
    by (auto simp add: parse_literal_def split: if_splits)
  from t assms(1) have "s \<noteq> []" by auto
  with assms(1) r show ?thesis by simp
qed

lemma skip_ws_tail: "skip_ws s = d # ds \<Longrightarrow> length ds < length s"
  using skip_ws_length [of s] by simp

lemma skip_ws_less: "k < length (skip_ws s) \<Longrightarrow> k < length s"
  using skip_ws_length [of s] by simp

lemma parse_length:
  "(\<forall>s v r. parse_value n s = Some (v, r) \<longrightarrow> length r < length s)
   \<and> (\<forall>s vs r. parse_elems n s = Some (vs, r) \<longrightarrow> length r < length s)
   \<and> (\<forall>s ms r. parse_members n s = Some (ms, r) \<longrightarrow> length r < length s)"
proof (induction n)
  case 0
  show ?case by simp
next
  case (Suc n)
  then have v: "\<And>s v r. parse_value n s = Some (v, r) \<Longrightarrow> length r < length s"
    and e: "\<And>s vs r. parse_elems n s = Some (vs, r) \<Longrightarrow> length r < length s"
    and m: "\<And>s ms r. parse_members n s = Some (ms, r) \<Longrightarrow> length r < length s"
    by blast+
  have 1: "length r < length s" if "parse_value (Suc n) s = Some (v, r)" for s v r
    using that
    by (auto split: list.splits if_splits option.splits
        dest!: e m parse_number_length parse_literal_length [rotated] parse_chars_length skip_ws_tail)
  have 2: "length r < length s" if "parse_elems (Suc n) s = Some (vs, r)" for s vs r
    using that
    by (auto split: list.splits if_splits option.splits
        dest!: v e skip_ws_tail skip_ws_less)
  have 3: "length r < length s" if "parse_members (Suc n) s = Some (ms, r)" for s ms r
    using that
    by (auto split: list.splits if_splits option.splits
        dest!: v m parse_chars_length skip_ws_tail skip_ws_less)
  from 1 2 3 show ?case by blast
qed

lemma parse_value_length: "parse_value n s = Some (v, r) \<Longrightarrow> length r < length s"
  using parse_length [of n] by blast

lemma parse_elems_length: "parse_elems n s = Some (vs, r) \<Longrightarrow> length r < length s"
  using parse_length [of n] by blast

lemma parse_members_length: "parse_members n s = Some (ms, r) \<Longrightarrow> length r < length s"
  using parse_length [of n] by blast

lemma parse_fuel:
  "(\<forall>s v r k. parse_value m s = Some (v, r) \<longrightarrow> length s - length r \<le> k
       \<longrightarrow> parse_value k s = Some (v, r))
   \<and> (\<forall>s vs r k. parse_elems m s = Some (vs, r) \<longrightarrow> length s - length r \<le> k
       \<longrightarrow> parse_elems k s = Some (vs, r))
   \<and> (\<forall>s ms r k. parse_members m s = Some (ms, r) \<longrightarrow> length s - length r \<le> k
       \<longrightarrow> parse_members k s = Some (ms, r))"
proof (induction m)
  case 0
  show ?case by simp
next
  case (Suc m)
  then have v: "\<And>s v r k. parse_value m s = Some (v, r) \<Longrightarrow> length s - length r \<le> k
        \<Longrightarrow> parse_value k s = Some (v, r)"
    and e: "\<And>s vs r k. parse_elems m s = Some (vs, r) \<Longrightarrow> length s - length r \<le> k
        \<Longrightarrow> parse_elems k s = Some (vs, r)"
    and ms: "\<And>s ms r k. parse_members m s = Some (ms, r) \<Longrightarrow> length s - length r \<le> k
        \<Longrightarrow> parse_members k s = Some (ms, r)"
    by blast+
  have 1: "parse_value k s = Some (v, r)"
    if a: "parse_value (Suc m) s = Some (v, r)" and b: "length s - length r \<le> k" for s v r k
  proof -
    from parse_value_length [OF a] have lt: "length r < length s" .
    with b obtain k' where k: "k = Suc k'" by (cases k) auto
    from a obtain c cs where s: "s = c # cs" by (cases s) auto
    show ?thesis
    proof (cases "c = CHR ''['' \<or> c = CHR ''{''")
      case False
      with a show ?thesis by (auto simp add: k s split: if_splits)
    next
      case True
      from a s True obtain d ds where sk: "skip_ws cs = d # ds"
        by (auto split: list.splits)
      from skip_ws_length [of cs] sk have l: "Suc (length ds) \<le> length cs" by simp
      show ?thesis
      proof (cases "c = CHR ''[''")
        case br: True
        show ?thesis
        proof (cases "d = CHR '']''")
          case True
          with a br show ?thesis by (simp add: k s sk)
        next
          case False
          with a br obtain vs where p: "parse_elems m (d # ds) = Some (vs, r)" and vv: "v = JArr vs"
            by (auto simp add: s sk split: option.splits)
          have "length (d # ds) - length r \<le> k'" using l lt b by (simp add: k s)
          from e [OF p this] False br vv show ?thesis by (simp add: k s sk)
        qed
      next
        case nb: False
        with True have cb: "c = CHR ''{''" by simp
        show ?thesis
        proof (cases "d = CHR ''}''")
          case True
          with a cb show ?thesis by (simp add: k s sk)
        next
          case False
          with a cb obtain mm where p: "parse_members m (d # ds) = Some (mm, r)"
            and vv: "v = JObj (object_of mm)"
            by (auto simp add: s sk split: option.splits)
          have "length (d # ds) - length r \<le> k'" using l lt b by (simp add: k s)
          from ms [OF p this] False cb vv show ?thesis by (simp add: k s sk)
        qed
      qed
    qed
  qed
  have 2: "parse_elems k s = Some (vs, r)"
    if a: "parse_elems (Suc m) s = Some (vs, r)" and b: "length s - length r \<le> k" for s vs r k
  proof -
    from parse_elems_length [OF a] have lt: "length r < length s" .
    with b obtain k' where k: "k = Suc k'" by (cases k) auto
    from a obtain x r1 where p: "parse_value m s = Some (x, r1)"
      by (auto split: option.splits)
    from a p obtain d ds where sk: "skip_ws r1 = d # ds"
      by (auto split: list.splits)
    from parse_value_length [OF p] have l1: "length r1 < length s" .
    from skip_ws_length [of r1] sk have l2: "Suc (length ds) \<le> length r1" by simp
    show ?thesis
    proof (cases "d = CHR '',''")
      case True
      with a p sk obtain vs' where q: "parse_elems m (skip_ws ds) = Some (vs', r)"
        and vv: "vs = x # vs'"
        by (auto split: option.splits)
      from parse_elems_length [OF q] skip_ws_length [of ds]
      have l3: "length r < length ds" by simp
      have "length s - length r1 \<le> k'" using l1 l2 l3 b by (simp add: k)
      from v [OF p this] have p': "parse_value k' s = Some (x, r1)" .
      have "length (skip_ws ds) - length r \<le> k'"
        using skip_ws_length [of ds] l1 l2 l3 b by (simp add: k)
      from e [OF q this] have q': "parse_elems k' (skip_ws ds) = Some (vs', r)" .
      from True vv show ?thesis by (simp add: k p' sk q')
    next
      case False
      with a p sk have dd: "d = CHR '']''" and rr: "r = ds" and vv: "vs = [x]"
        by (auto split: if_splits)
      have "length s - length r1 \<le> k'" using l1 l2 b by (simp add: k rr)
      from v [OF p this] have p': "parse_value k' s = Some (x, r1)" .
      from dd rr vv show ?thesis by (simp add: k p' sk)
    qed
  qed
  have 3: "parse_members k s = Some (mm, r)"
    if a: "parse_members (Suc m) s = Some (mm, r)" and b: "length s - length r \<le> k" for s mm r k
  proof -
    from parse_members_length [OF a] have lt: "length r < length s" .
    with b obtain k' where k: "k = Suc k'" by (cases k) auto
    from a obtain cs where s: "s = CHR 0x22 # cs" by (cases s) (auto split: if_splits)
    from a s obtain key r0 where pc: "parse_chars cs = Some (key, r0)"
      by (auto split: option.splits)
    from a s pc obtain r1 where sk0: "skip_ws r0 = CHR '':'' # r1"
      by (auto split: list.splits if_splits)
    from a s pc sk0 obtain x r2 where p: "parse_value m (skip_ws r1) = Some (x, r2)"
      by (auto split: option.splits)
    from a s pc sk0 p obtain d ds where sk: "skip_ws r2 = d # ds"
      by (auto split: list.splits)
    from parse_chars_length [OF pc] have l0: "length r0 < length cs" .
    from skip_ws_length [of r0] sk0 have l1: "Suc (length r1) \<le> length r0" by simp
    from parse_value_length [OF p] have l2: "length r2 < length (skip_ws r1)" .
    from skip_ws_length [of r2] sk have l3: "Suc (length ds) \<le> length r2" by simp
    note l4 = skip_ws_length [of r1]
    show ?thesis
    proof (cases "d = CHR '',''")
      case True
      with a s pc sk0 p sk obtain mm' where q: "parse_members m (skip_ws ds) = Some (mm', r)"
        and vv: "mm = (key, x) # mm'"
        by (auto split: option.splits)
      from parse_members_length [OF q] skip_ws_length [of ds]
      have l5: "length r < length ds" by simp
      have "length (skip_ws r1) - length r2 \<le> k'" using l0 l1 l2 l3 l4 l5 b by (simp add: k s)
      from v [OF p this] have p': "parse_value k' (skip_ws r1) = Some (x, r2)" .
      have "length (skip_ws ds) - length r \<le> k'"
        using skip_ws_length [of ds] l0 l1 l2 l3 l4 l5 b by (simp add: k s)
      from ms [OF q this] have q': "parse_members k' (skip_ws ds) = Some (mm', r)" .
      from True vv show ?thesis by (simp add: k s pc sk0 p' sk q')
    next
      case False
      with a s pc sk0 p sk have dd: "d = CHR ''}''" and rr: "r = ds" and vv: "mm = [(key, x)]"
        by (auto split: if_splits)
      have "length (skip_ws r1) - length r2 \<le> k'" using l0 l1 l2 l3 l4 b by (simp add: k s rr)
      from v [OF p this] have p': "parse_value k' (skip_ws r1) = Some (x, r2)" .
      from dd rr vv show ?thesis by (simp add: k s pc sk0 p' sk)
    qed
  qed
  from 1 2 3 show ?case by blast
qed

lemma JSON_parse_any_fuel:
  assumes "parse_value m (skip_ws s) = Some (v, r)" and "skip_ws r = []"
  shows "JSON_parse s = Some v"
proof -
  have "length (skip_ws s) - length r \<le> Suc (length s)"
    using skip_ws_length [of s] by simp
  with parse_fuel [of m] assms(1)
  have "parse_value (Suc (length s)) (skip_ws s) = Some (v, r)" by blast
  with assms(2) show ?thesis by (simp add: JSON_parse_def del: parse_value.simps)
qed

end
